theory Spec2Isabelle
  imports Complex_Main "HOL-Library.Log_Nat"
begin

section \<open>Python floats\<close>

text \<open>
  The amounts of \<^verbatim>\<open>budget.py\<close> are Python floats (IEEE 754 binary64). A float is modelled
  by the real number it denotes, and every \<^verbatim>\<open>+\<close>, \<^verbatim>\<open>*\<close> and \<^verbatim>\<open>/\<close> of the source rounds
  its exact result to the nearest number with a 53-bit significand, ties to the even
  significand, as the hardware does. Comparisons are exact. The exponent is unbounded
  here, so the model is the code as long as no result overflows to an infinity or
  underflows below the normal range; infinities, NaN and the sign of zero are not
  modelled. Division by zero raises \<^verbatim>\<open>ZeroDivisionError\<close> in Python and is an error
  value here.
\<close>

type_synonym float = real

datatype error = ZeroDivisionError

definition round_half_even :: "real \<Rightarrow> int" where
  "round_half_even y =
     (let n = \<lfloor>y\<rfloor>; d = y - of_int n
      in if d < 1 / 2 then n else if 1 / 2 < d then n + 1 else if even n then n else n + 1)"

text \<open>The binary exponent of a positive number: \<open>2 powi binade x \<le> x < 2 powi (binade x + 1)\<close>.\<close>

definition binade :: "real \<Rightarrow> int" where
  "binade x =
     (if 1 \<le> x then int (floorlog 2 (nat \<lfloor>x\<rfloor>)) - 1
      else - int (floorlog 2 (nat (\<lceil>1 / x\<rceil> - 1))))"

definition round_pos :: "real \<Rightarrow> real" where
  "round_pos x = (let u = 2 powi (binade x - 52) in of_int (round_half_even (x / u)) * u)"

definition to_double :: "real \<Rightarrow> float" where
  "to_double x = (if x = 0 then 0 else if 0 < x then round_pos x else - round_pos (- x))"

text \<open>The unit in the last place of a positive number, and the numbers that are floats.\<close>

definition ulp :: "real \<Rightarrow> real" where
  "ulp x = 2 powi (binade x - 52)"

definition is_double :: "real \<Rightarrow> bool" where
  "is_double x = (to_double x = x)"

definition fadd :: "float \<Rightarrow> float \<Rightarrow> float" where
  "fadd x y = to_double (x + y)"

definition fmul :: "float \<Rightarrow> float \<Rightarrow> float" where
  "fmul x y = to_double (x * y)"

definition fdiv :: "float \<Rightarrow> float \<Rightarrow> error + float" where
  "fdiv x y = (if y = 0 then Inl ZeroDivisionError else Inr (to_double (x / y)))"

section \<open>Categories\<close>

text \<open>
  \<^verbatim>\<open>LedgerElement\<close> is a dictionary with the two keys \<^verbatim>\<open>amount\<close> and \<^verbatim>\<open>description\<close>;
  a \<^verbatim>\<open>Category\<close> object has a name and a ledger, the list of its entries in the order
  they were appended.
\<close>

record LedgerElement =
  amount :: float
  description :: string

record Category =
  name :: string
  ledger :: "LedgerElement list"

definition Category_init :: "string \<Rightarrow> Category" where
  "Category_init n = \<lparr>name = n, ledger = []\<rparr>"

definition get_balance :: "Category \<Rightarrow> float" where
  "get_balance self = foldl (\<lambda>balance element. fadd balance (amount element)) 0 (ledger self)"

definition check_funds :: "Category \<Rightarrow> float \<Rightarrow> bool" where
  "check_funds self a = (a \<le> get_balance self)"

definition deposit :: "Category \<Rightarrow> float \<Rightarrow> string \<Rightarrow> Category" where
  "deposit self a d = self\<lparr>ledger := ledger self @ [\<lparr>amount = a, description = d\<rparr>]\<rparr>"

text \<open>\<open>withdraw\<close> returns the boolean of the source together with the category afterwards.\<close>

definition withdraw :: "Category \<Rightarrow> float \<Rightarrow> string \<Rightarrow> bool \<times> Category" where
  "withdraw self a d =
     (if check_funds self a
      then (True, self\<lparr>ledger := ledger self @ [\<lparr>amount = fmul a (- 1), description = d\<rparr>]\<rparr>)
      else (False, self))"

subsection \<open>Objects and transfers\<close>

text \<open>
  \<^verbatim>\<open>transfer\<close> changes two objects, which may be one and the same object, so the
  categories live in a store and a transfer names its source and destination by their
  references. The source first withdraws (the result of that call is dropped), then
  the destination, read from the store as it is by then, receives the deposit.
\<close>

type_synonym ref = nat
type_synonym store = "ref \<Rightarrow> Category"

definition transfer :: "store \<Rightarrow> ref \<Rightarrow> float \<Rightarrow> ref \<Rightarrow> bool \<times> store" where
  "transfer s self a destination =
     (if check_funds (s self) a then
        let s1 = s(self := snd (withdraw (s self) a (''Transfer to '' @ name (s destination))));
            s2 = s1(destination :=
                   deposit (s1 destination) a (''Transfer from '' @ name (s1 self)))
        in (True, s2)
      else (False, s))"

text \<open>The calls a client can make, for statements about every sequence of them.\<close>

datatype operation =
  Deposit ref float string
| Withdraw ref float string
| Transfer ref float ref




section \<open>The statement of a category\<close>

text \<open>
  Python's \<^verbatim>\<open>str.center\<close> and \<^verbatim>\<open>str.rjust\<close> return the string itself when it is at
  least as long as the width; \<^verbatim>\<open>center\<close> puts the odd fill character on the left only
  when the width is odd too. The width of \<^verbatim>\<open>rjust\<close> is an integer of either sign.
\<close>

abbreviation newline :: char where
  "newline \<equiv> CHR 0x0A"


definition rjust :: "int \<Rightarrow> char \<Rightarrow> string \<Rightarrow> string" where
  "rjust width fillchar s = replicate (nat (width - int (length s))) fillchar @ s"







section \<open>The spend chart\<close>

text \<open>
  The dictionaries \<^verbatim>\<open>Withdraw\<close> and \<^verbatim>\<open>XAxis\<close> are pairs of a name and a number. The
  chart function first collects the withdrawals of every category, then their total,
  then a percentage for every category, which raises \<^verbatim>\<open>ZeroDivisionError\<close> when the
  total is zero, and only then builds the text. Printing the text is left out; the
  function returns it.
\<close>

definition withdraw_sum :: "LedgerElement list \<Rightarrow> float" where
  "withdraw_sum l =
     foldl (\<lambda>s element. if amount element < 0 then fadd s (fmul (amount element) (- 1)) else s)
       0 l"

definition withdraws :: "Category list \<Rightarrow> (string \<times> float) list" where
  "withdraws categories =
     foldl (\<lambda>ws category. ws @ [(name category, withdraw_sum (ledger category))]) [] categories"

definition overall_withdraw :: "(string \<times> float) list \<Rightarrow> float" where
  "overall_withdraw ws = foldl (\<lambda>overall w. fadd overall (snd w)) 0 ws"

definition withdraw_percent :: "float \<Rightarrow> float \<Rightarrow> error + int" where
  "withdraw_percent overall a =
     (case fdiv 100 overall of
        Inl e \<Rightarrow> Inl e
      | Inr q \<Rightarrow>
          (case fdiv (fmul q a) 10 of
             Inl e \<Rightarrow> Inl e
           | Inr r \<Rightarrow> Inr (\<lfloor>r\<rfloor> * 10)))"

fun percent_loop ::
  "float \<Rightarrow> (string \<times> float) list \<Rightarrow> (string \<times> int) list \<Rightarrow> nat
     \<Rightarrow> error + ((string \<times> int) list \<times> nat)" where
  "percent_loop overall [] x_axis max_name_length = Inr (x_axis, max_name_length)"
| "percent_loop overall (w # ws) x_axis max_name_length =
     (case withdraw_percent overall (snd w) of
        Inl e \<Rightarrow> Inl e
      | Inr p \<Rightarrow>
          percent_loop overall ws (x_axis @ [(fst w, p)]) (max max_name_length (length (fst w))))"

definition y_axis :: "string list" where
  "y_axis = [''100'', ''90'', ''80'', ''70'', ''60'', ''50'', ''40'', ''30'', ''20'', ''10'', ''0'']"

text \<open>\<^verbatim>\<open>int\<close> of a string of decimal digits, which the labels of the axis are.\<close>

definition int_of_str :: "string \<Rightarrow> int" where
  "int_of_str s = foldl (\<lambda>n c. 10 * n + (int (of_char c) - 48)) 0 s"

definition chart_rows :: "(string \<times> int) list \<Rightarrow> string \<Rightarrow> string" where
  "chart_rows x_axis result0 =
     foldl (\<lambda>result y_element.
        let result = result @ rjust 4 CHR '' '' (y_element @ ''|'');
            y_value = int_of_str y_element;
            result = foldl (\<lambda>result x_element.
                       if y_value \<le> snd x_element then result @ '' o '' else result @ ''   '')
                     result x_axis
        in result @ '' '' @ [newline])
       result0 y_axis"

text \<open>
  The rows of names. Reading \<^verbatim>\<open>name[i]\<close> beyond the end of a name raises
  \<^verbatim>\<open>IndexError\<close>, which the source catches to write three spaces.
\<close>

function name_rows :: "(string \<times> int) list \<Rightarrow> nat \<Rightarrow> nat \<Rightarrow> string \<Rightarrow> string" where
  "name_rows x_axis max_name_length i result =
     (if i < max_name_length then
        let line = foldl (\<lambda>line x_element.
                      line @ (if i < length (fst x_element)
                              then '' '' @ [fst x_element ! i] @ '' '' else ''   ''))
                    ''    '' x_axis;
            result = result @ line @ '' '';
            result = (if int i < int max_name_length - 1 then result @ [newline] else result)
        in name_rows x_axis max_name_length (i + 1) result
      else result)"
  by pat_completeness auto
termination
  by (relation "measure (\<lambda>(x_axis, max_name_length, i, result). max_name_length - i)") auto

declare name_rows.simps [simp del]

definition create_spend_chart :: "Category list \<Rightarrow> error + string" where
  "create_spend_chart categories =
     (let ws = withdraws categories;
          overall = overall_withdraw ws
      in case percent_loop overall ws [] 0 of
           Inl e \<Rightarrow> Inl e
         | Inr (x_axis, max_name_length) \<Rightarrow>
             let result = ''Percentage spent by category'' @ [newline];
                 result = chart_rows x_axis result;
                 result = result @ ''    '' @ rjust (int (length x_axis) * 3) CHR ''-'' [] @ ''-''
                          @ [newline]
             in Inr (name_rows x_axis max_name_length 0 result))"

section \<open>Example stores\<close>

text \<open>Concrete stores on which the theorems below are evaluated.\<close>

definition food_store :: store where
  "food_store = (\<lambda>r. \<lparr>name = ''Food'', ledger = [\<lparr>amount = 10, description = ''initial''\<rparr>]\<rparr>)"

definition empty_store :: store where
  "empty_store = (\<lambda>r. Category_init (if r = 0 then ''Food'' else ''Auto''))"

definition debt_store :: store where
  "debt_store = (\<lambda>r. \<lparr>name = ''Food'', ledger = [\<lparr>amount = - 5, description = ''refund''\<rparr>]\<rparr>)"

definition big_store :: store where
  "big_store = (\<lambda>r. \<lparr>name = ''Food'', ledger = [\<lparr>amount = 1, description = ''initial''\<rparr>]\<rparr>)"

definition rich_store :: store where
  "rich_store =
     (\<lambda>r. \<lparr>name = ''Food'', ledger = [\<lparr>amount = 10000000000000000, description = ''initial''\<rparr>]\<rparr>)"

text \<open>Lists of categories for the chart.\<close>

definition solo_food :: "Category list" where
  "solo_food =
     [\<lparr>name = ''Food'', ledger = [\<lparr>amount = 100, description = ''deposit''\<rparr>,
                                  \<lparr>amount = - 97, description = ''groceries''\<rparr>]\<rparr>]"




section \<open>Facts about rounding\<close>

text \<open>
  Rounding keeps zero and the sign, is monotone, leaves the numbers with a 53-bit
  significand as they are, and moves a number by at most half a unit in its last place.
\<close>

lemma to_double_0: "to_double 0 = 0"
  by (simp add: to_double_def)

lemma to_double_minus: "to_double (- x) = - to_double x"
  by (simp add: to_double_def)

lemma fmul_minus_one: "is_double a \<Longrightarrow> fmul a (- 1) = - a"
  by (simp add: fmul_def is_double_def to_double_minus)

lemma binade_bounds:
  assumes "0 < x"
  shows "2 powi binade x \<le> x \<and> x < 2 powi (binade x + 1)"
proof (cases "1 \<le> x")
  case True
  define n where "n = nat \<lfloor>x\<rfloor>"
  have n: "0 < n" "real n \<le> x" "x < real n + 1"
    using True by (auto simp: n_def; linarith)+
  define f where "f = floorlog 2 n"
  have fb: "2 ^ (f - 1) \<le> n" "n < 2 ^ f"
    using floorlog_bounds[of n 2] n(1) by (auto simp: f_def)
  have f1: "1 \<le> f" using n(1) by (auto simp: f_def floorlog_def)
  have b: "binade x = int f - 1" using True by (simp add: binade_def n_def f_def)
  have "(2::real) powi (int f - 1) = 2 ^ (f - 1)"
    using f1 by (simp add: power_int_def nat_diff_distrib')
  moreover have "(2::real) ^ (f - 1) \<le> real n"
  proof -
    have "real (2 ^ (f - 1)) \<le> real n" using fb(1) by (simp only: of_nat_le_iff)
    then show ?thesis by simp
  qed
  moreover have "real n + 1 \<le> 2 ^ f"
  proof -
    have "real (Suc n) \<le> real (2 ^ f)" using fb(2) by (simp only: of_nat_le_iff Suc_le_eq)
    then show ?thesis by simp
  qed
  moreover have "(2::real) powi (int f - 1 + 1) = 2 ^ f" by simp
  ultimately show ?thesis using n b by (simp only:) linarith
next
  case False
  define y where "y = 1 / x"
  have y: "1 < y" using False assms by (simp add: y_def)
  define m where "m = nat (\<lceil>y\<rceil> - 1)"
  have m: "0 < m" "real m < y" "y \<le> real m + 1"
    using y by (auto simp: m_def; linarith)+
  define f where "f = floorlog 2 m"
  have fb: "2 ^ (f - 1) \<le> m" "m < 2 ^ f"
    using floorlog_bounds[of m 2] m(1) by (auto simp: f_def)
  have f1: "1 \<le> f" using m(1) by (auto simp: f_def floorlog_def)
  have b: "binade x = - int f" using False by (simp add: binade_def m_def f_def y_def)
  have 1: "(2::real) ^ (f - 1) \<le> real m"
  proof -
    have "real (2 ^ (f - 1)) \<le> real m" using fb(1) by (simp only: of_nat_le_iff)
    then show ?thesis by simp
  qed
  have 2: "real m + 1 \<le> 2 ^ f"
  proof -
    have "real (Suc m) \<le> real (2 ^ f)" using fb(2) by (simp only: of_nat_le_iff Suc_le_eq)
    then show ?thesis by simp
  qed
  have yl: "2 ^ (f - 1) < y" and yu: "y \<le> 2 ^ f" using 1 2 m by linarith+
  have "2 powi (- int f) \<le> x"
  proof -
    have "1 / 2 ^ f \<le> 1 / y" using yu y by (simp add: frac_le)
    then show ?thesis by (simp add: power_int_minus y_def inverse_eq_divide)
  qed
  moreover have "x < 2 powi (- int f + 1)"
  proof -
    have "1 / y < 1 / 2 ^ (f - 1)" using yl by (simp add: frac_less2)
    moreover have "(2::real) powi (- int f + 1) = 1 / 2 ^ (f - 1)"
    proof -
      have "- int f + 1 = - int (f - 1)" using f1 by simp
      then show ?thesis by (simp only: power_int_minus power_int_of_nat inverse_eq_divide)
    qed
    ultimately show ?thesis by (simp add: y_def)
  qed
  ultimately show ?thesis using b by simp
qed

lemma powi2_less_iff: "(2::real) powi a < 2 powi b \<longleftrightarrow> a < b"
proof
  assume "(2::real) powi a < 2 powi b"
  then show "a < b"
    using power_int_increasing[of b a "2::real"] by (cases "a < b") auto
next
  assume "a < b"
  then show "(2::real) powi a < 2 powi b"
    by (simp add: power_int_strict_increasing)
qed

lemma powi2_le_iff: "(2::real) powi a \<le> 2 powi b \<longleftrightarrow> a \<le> b"
  using powi2_less_iff[of b a] by (auto simp: not_less[symmetric])

lemma binade_unique:
  assumes "0 < x" "2 powi k \<le> x" "x < 2 powi (k + 1)"
  shows "binade x = k"
proof -
  have b: "2 powi binade x \<le> x" "x < 2 powi (binade x + 1)"
    using binade_bounds[OF assms(1)] by auto
  have "(2::real) powi k < 2 powi (binade x + 1)" using assms(2) b(2) by linarith
  then have 1: "k < binade x + 1" by (simp add: powi2_less_iff)
  have "(2::real) powi binade x < 2 powi (k + 1)" using assms(3) b(1) by linarith
  then have 2: "binade x < k + 1" by (simp add: powi2_less_iff)
  from 1 2 show ?thesis by simp
qed

lemma binade_mono:
  assumes "0 < x" "x \<le> y"
  shows "binade x \<le> binade y"
proof -
  have "2 powi binade x \<le> x" using binade_bounds[OF assms(1)] by simp
  moreover have "y < 2 powi (binade y + 1)" using binade_bounds[of y] assms by simp
  ultimately have "(2::real) powi binade x < 2 powi (binade y + 1)" using assms(2) by linarith
  then show ?thesis by (simp add: powi2_less_iff)
qed

lemma rhe_floor: "round_half_even y = \<lfloor>y\<rfloor> \<or> round_half_even y = \<lfloor>y\<rfloor> + 1"
  by (simp add: round_half_even_def Let_def)

lemma rhe_of_int: "round_half_even (of_int n) = n"
  by (simp add: round_half_even_def)


lemma rhe_mono:
  assumes "x \<le> y"
  shows "round_half_even x \<le> round_half_even y"
proof (cases "\<lfloor>x\<rfloor> = \<lfloor>y\<rfloor>")
  case True
  have "x - of_int \<lfloor>y\<rfloor> \<le> y - of_int \<lfloor>y\<rfloor>" using assms by simp
  then show ?thesis
    using True by (auto simp: round_half_even_def Let_def)
next
  case False
  then have "\<lfloor>x\<rfloor> + 1 \<le> \<lfloor>y\<rfloor>" using floor_mono[OF assms] by linarith
  then show ?thesis using rhe_floor[of x] rhe_floor[of y] by linarith
qed

lemma rhe_ge_int: "of_int n \<le> y \<Longrightarrow> n \<le> round_half_even y"
  using rhe_mono[of "of_int n" y] by (simp add: rhe_of_int)

lemma rhe_le_int: "y \<le> of_int n \<Longrightarrow> round_half_even y \<le> n"
  using rhe_mono[of y "of_int n"] by (simp add: rhe_of_int)

lemma ulp_pos: "0 < ulp x"
  by (simp add: ulp_def)

lemma round_pos_ulp: "round_pos x = of_int (round_half_even (x / ulp x)) * ulp x"
  by (simp add: round_pos_def ulp_def Let_def)

lemma ulp_scale: "2 ^ 52 * ulp x = 2 powi binade x" "2 ^ 53 * ulp x = 2 powi (binade x + 1)"
proof -
  have "(2::real) powi 52 * 2 powi (binade x - 52) = 2 powi (52 + (binade x - 52))"
    by (subst power_int_add) auto
  then show "2 ^ 52 * ulp x = 2 powi binade x" by (simp add: ulp_def)
  have "(2::real) powi 53 * 2 powi (binade x - 52) = 2 powi (53 + (binade x - 52))"
    by (subst power_int_add) auto
  then show "2 ^ 53 * ulp x = 2 powi (binade x + 1)" by (simp add: ulp_def add.commute)
qed

lemma scaled_bounds:
  assumes "0 < x"
  shows "2 ^ 52 \<le> x / ulp x" "x / ulp x < 2 ^ 53"
proof -
  have b: "2 powi binade x \<le> x" "x < 2 powi (binade x + 1)"
    using binade_bounds[OF assms] by auto
  have "2 ^ 52 * ulp x \<le> x" using b(1) by (simp only: ulp_scale)
  then show "2 ^ 52 \<le> x / ulp x" using ulp_pos[of x] by (simp only: pos_le_divide_eq)
  have "x < 2 ^ 53 * ulp x" using b(2) by (simp only: ulp_scale)
  then show "x / ulp x < 2 ^ 53" using ulp_pos[of x] by (simp only: pos_divide_less_eq)
qed

lemma mant_bounds:
  assumes "0 < x"
  shows "2 ^ 52 \<le> round_half_even (x / ulp x)" "round_half_even (x / ulp x) \<le> 2 ^ 53"
proof -
  have "of_int (2 ^ 52) \<le> x / ulp x" using scaled_bounds(1)[OF assms] by simp
  then show "2 ^ 52 \<le> round_half_even (x / ulp x)" by (rule rhe_ge_int)
  have "x / ulp x \<le> of_int (2 ^ 53)" using scaled_bounds(2)[OF assms] by simp
  then show "round_half_even (x / ulp x) \<le> 2 ^ 53" by (rule rhe_le_int)
qed

lemma round_pos_lower: "0 < x \<Longrightarrow> 2 powi binade x \<le> round_pos x"
proof -
  assume x: "0 < x"
  have "(of_int (2 ^ 52) :: real) \<le> of_int (round_half_even (x / ulp x))"
    using mant_bounds(1)[OF x] by (simp only: of_int_le_iff)
  then have "(2::real) ^ 52 \<le> of_int (round_half_even (x / ulp x))" by simp
  then have "2 ^ 52 * ulp x \<le> of_int (round_half_even (x / ulp x)) * ulp x"
    using ulp_pos[of x] by (simp only: mult_le_cancel_right_pos)
  then show ?thesis by (simp only: ulp_scale round_pos_ulp)
qed

lemma round_pos_upper: "0 < x \<Longrightarrow> round_pos x \<le> 2 powi (binade x + 1)"
proof -
  assume x: "0 < x"
  have "(of_int (round_half_even (x / ulp x)) :: real) \<le> of_int (2 ^ 53)"
    using mant_bounds(2)[OF x] by (simp only: of_int_le_iff)
  then have "of_int (round_half_even (x / ulp x)) \<le> (2::real) ^ 53" by simp
  then have "of_int (round_half_even (x / ulp x)) * ulp x \<le> 2 ^ 53 * ulp x"
    using ulp_pos[of x] by (simp only: mult_le_cancel_right_pos)
  then show ?thesis by (simp only: ulp_scale round_pos_ulp)
qed

lemma round_pos_pos: "0 < x \<Longrightarrow> 0 < round_pos x"
  using round_pos_lower[of x] zero_less_power_int[of "2::real" "binade x"] by linarith

lemma round_pos_mono:
  assumes "0 < x" "x \<le> y"
  shows "round_pos x \<le> round_pos y"
proof (cases "binade x = binade y")
  case True
  then have u: "ulp x = ulp y" by (simp add: ulp_def)
  have "x / ulp y \<le> y / ulp y" using assms(2) ulp_pos[of y] by (simp add: divide_right_mono)
  then have "round_half_even (x / ulp y) \<le> round_half_even (y / ulp y)" by (rule rhe_mono)
  then have "(of_int (round_half_even (x / ulp y)) :: real) \<le> of_int (round_half_even (y / ulp y))"
    by simp
  then show ?thesis using ulp_pos[of y] by (simp add: round_pos_ulp u)
next
  case False
  then have "binade x + 1 \<le> binade y" using binade_mono[OF assms] by simp
  then have "(2::real) powi (binade x + 1) \<le> 2 powi binade y" by (simp add: powi2_le_iff)
  moreover have "0 < y" using assms by simp
  ultimately show ?thesis using round_pos_upper[OF assms(1)] round_pos_lower[of y] by linarith
qed




lemma round_pos_fix:
  assumes "0 < m" "m < 2 ^ 53"
  shows "round_pos (of_int m * 2 powi e) = of_int m * 2 powi e"
proof -
  define x :: real where "x = of_int m * 2 powi e"
  have x: "0 < x" using assms(1) by (simp add: x_def)
  define k where "k = binade x"
  have "2 powi k \<le> x" using binade_bounds[OF x] by (simp add: k_def)
  moreover have "x < 2 ^ 53 * 2 powi e"
  proof -
    have "(of_int m :: real) < of_int (2 ^ 53)" using assms(2) by (simp only: of_int_less_iff)
    then show ?thesis by (simp add: x_def)
  qed
  moreover have "(2::real) ^ 53 * 2 powi e = 2 powi (e + 53)"
  proof -
    have "(2::real) powi 53 * 2 powi e = 2 powi (53 + e)" by (subst power_int_add) auto
    then show ?thesis by (simp add: add.commute)
  qed
  ultimately have "(2::real) powi k < 2 powi (e + 53)" by linarith
  then have ke: "k < e + 53" by (simp only: powi2_less_iff)
  define j where "j = nat (e - k + 52)"
  have j: "e = k - 52 + int j" using ke by (simp add: j_def)
  define w where "w = ulp x"
  have w: "w = 2 powi (k - 52)" "0 < w" by (simp_all add: w_def ulp_def k_def)
  have pe: "(2::real) powi e = w * 2 ^ j"
    unfolding w(1) by (subst j, subst power_int_add) auto
  have xm: "x = of_int (m * 2 ^ j) * w" by (simp add: x_def pe)
  have "x / w = (of_int (m * 2 ^ j) * w) / w"
    by (rule arg_cong[where f = "\<lambda>t. t / w"]) (rule xm)
  also have "\<dots> = of_int (m * 2 ^ j)" using w(2) by simp
  finally have "x / w = of_int (m * 2 ^ j)" .
  then have "round_half_even (x / w) = m * 2 ^ j" by (simp only: rhe_of_int)
  then have "round_pos x = of_int (m * 2 ^ j) * w" by (simp only: round_pos_ulp w_def)
  then have "round_pos x = x" by (rule trans) (rule xm[symmetric])
  then show ?thesis by (simp only: x_def)
qed

lemma round_pos_idem:
  assumes "0 < x"
  shows "round_pos (round_pos x) = round_pos x"
proof -
  define m where "m = round_half_even (x / ulp x)"
  have m: "2 ^ 52 \<le> m" "m \<le> 2 ^ 53" using mant_bounds[OF assms] by (simp_all add: m_def)
  have r: "round_pos x = of_int m * 2 powi (binade x - 52)" by (simp add: round_pos_ulp m_def ulp_def)
  show ?thesis
  proof (cases "m = 2 ^ 53")
    case True
    have "round_pos x = of_int (2 ^ 52) * 2 powi (binade x - 51)"
    proof -
      have "(2::real) powi (binade x - 51) = 2 powi (binade x - 52) * 2"
        using power_int_add[of "2::real" "binade x - 52" 1] by simp
      then show ?thesis by (simp add: r True)
    qed
    moreover have "round_pos (of_int (2 ^ 52) * 2 powi (binade x - 51)) = of_int (2 ^ 52) * 2 powi (binade x - 51)"
      by (rule round_pos_fix) simp_all
    ultimately show ?thesis by simp
  next
    case False
    then have "0 < m" "m < 2 ^ 53" using m by simp_all
    then show ?thesis unfolding r by (rule round_pos_fix)
  qed
qed

lemma to_double_pos: "0 < x \<Longrightarrow> 0 < to_double x"
  by (simp add: to_double_def round_pos_pos)

lemma to_double_nonneg: "0 \<le> x \<Longrightarrow> 0 \<le> to_double x"
  using to_double_pos[of x] by (cases "x = 0") (simp_all add: to_double_0 less_eq_real_def)

lemma to_double_mono:
  assumes "x \<le> y"
  shows "to_double x \<le> to_double y"
proof -
  consider "0 < x" | "y < 0" | "x \<le> 0" "0 \<le> y" using assms by linarith
  then show ?thesis
  proof cases
    case 1
    then show ?thesis using assms round_pos_mono[of x y] by (simp add: to_double_def)
  next
    case 2
    then have "0 < - y" "- y \<le> - x" using assms by simp_all
    then have "round_pos (- y) \<le> round_pos (- x)" by (rule round_pos_mono)
    then show ?thesis using 2 assms by (simp add: to_double_def)
  next
    case 3
    have "to_double x \<le> 0" using to_double_nonneg[of "- x"] 3(1) by (simp add: to_double_minus)
    then show ?thesis using to_double_nonneg[OF 3(2)] by linarith
  qed
qed

lemma to_double_idem: "to_double (to_double x) = to_double x"
proof -
  consider "x = 0" | "0 < x" | "x < 0" by linarith
  then show ?thesis
  proof cases
    case 1
    then show ?thesis by (simp add: to_double_0)
  next
    case 2
    then show ?thesis using round_pos_pos[OF 2] round_pos_idem[OF 2] by (simp add: to_double_def)
  next
    case 3
    then have p: "0 < - x" by simp
    show ?thesis using 3 round_pos_pos[OF p] round_pos_idem[OF p] by (simp add: to_double_def)
  qed
qed

lemma to_double_round_pos: "0 < x \<Longrightarrow> to_double x = round_pos x"
  by (simp add: to_double_def)

lemma to_double_fix_pos:
  assumes "0 < m" "m < 2 ^ 53"
  shows "to_double (of_int m * 2 powi e) = of_int m * 2 powi e"
proof -
  have "0 < (of_int m :: real) * 2 powi e" using assms(1) by simp
  then have "to_double (of_int m * 2 powi e) = round_pos (of_int m * 2 powi e)"
    by (rule to_double_round_pos)
  then show ?thesis by (simp only: round_pos_fix[OF assms])
qed

lemma to_double_fix:
  assumes "\<bar>m\<bar> < 2 ^ 53"
  shows "to_double (of_int m * 2 powi e) = of_int m * 2 powi e"
proof -
  consider "m = 0" | "0 < m" | "m < 0" by linarith
  then show ?thesis
  proof cases
    case 1
    then show ?thesis by (simp add: to_double_0)
  next
    case 2
    moreover have "m < 2 ^ 53" using assms by simp
    ultimately show ?thesis by (rule to_double_fix_pos)
  next
    case 3
    then have m: "0 < - m" "- m < 2 ^ 53" using assms by simp_all
    have "to_double (- (of_int (- m) * 2 powi e)) = - (of_int (- m) * 2 powi e)"
      by (simp only: to_double_minus to_double_fix_pos[OF m])
    then show ?thesis by simp
  qed
qed

lemma to_double_of_int: "\<bar>m\<bar> < 2 ^ 53 \<Longrightarrow> to_double (of_int m) = of_int m"
  using to_double_fix[of m 0] by simp


lemma is_double_0: "is_double 0"
  by (simp add: is_double_def to_double_0)

lemma is_double_to_double: "is_double (to_double x)"
  by (simp add: is_double_def to_double_idem)

lemma is_double_fadd: "is_double (fadd x y)"
  by (simp add: fadd_def is_double_to_double)

lemma is_double_of_int: "\<bar>m\<bar> < 2 ^ 53 \<Longrightarrow> is_double (of_int m)"
  by (simp add: is_double_def to_double_of_int)

lemma is_double_minus: "is_double x \<Longrightarrow> is_double (- x)"
  by (simp add: is_double_def to_double_minus)

lemma ge_double: "is_double r \<Longrightarrow> r \<le> x \<Longrightarrow> r \<le> to_double x"
  using to_double_mono[of r x] by (simp add: is_double_def)


section \<open>Balances\<close>

lemmas float_eval =
  fadd_def fmul_def fdiv_def to_double_def round_pos_def binade_def round_half_even_def
  compute_floorlog Let_def

lemma get_balance_snoc:
  "get_balance (c\<lparr>ledger := ledger c @ [e]\<rparr>) = fadd (get_balance c) (amount e)"
  by (simp add: get_balance_def)

lemma get_balance_deposit: "get_balance (deposit c a d) = fadd (get_balance c) a"
  by (simp add: deposit_def get_balance_snoc)



lemma is_double_get_balance: "is_double (get_balance c)"
proof (cases "ledger c" rule: rev_cases)
  case Nil
  then show ?thesis by (simp add: get_balance_def is_double_0)
next
  case (snoc l e)
  then show ?thesis by (simp add: get_balance_def is_double_fadd)
qed



lemma is_double_1: "is_double 1"
  using is_double_of_int[of 1] by simp

lemma food_balance: "get_balance (food_store r) = 10"
  by (simp add: food_store_def get_balance_def float_eval)

lemma is_double_4: "is_double 4"
  using is_double_of_int[of 4] by simp

lemma is_double_3: "is_double 3"
  using is_double_of_int[of 3] by simp




section \<open>Withdrawals\<close>

text \<open>
  C2. \<open>withdraw\<close> returns true exactly when the balance at the check is at least the
  amount. Then the ledger is the old one with the single entry of the negated amount
  and the description appended; otherwise the category is unchanged, and so is its
  balance. Negating a float is exact.
\<close>

theorem withdraw_iff_funds:
  "(fst (withdraw c a d) \<longleftrightarrow> a \<le> get_balance c) \<and>
   (a \<le> get_balance c \<longrightarrow>
      snd (withdraw c a d) = c\<lparr>ledger := ledger c @ [\<lparr>amount = fmul a (- 1), description = d\<rparr>]\<rparr>
      \<and> (is_double a \<longrightarrow> fmul a (- 1) = - a)) \<and>
   (\<not> a \<le> get_balance c \<longrightarrow>
      snd (withdraw c a d) = c \<and> get_balance (snd (withdraw c a d)) = get_balance c)"
  by (simp add: withdraw_def check_funds_def fmul_minus_one)

theorem withdraw_iff_funds_witness:
  "fst (withdraw (food_store 0) 4 ''lunch'') \<and>
   ledger (snd (withdraw (food_store 0) 4 ''lunch'')) =
     [\<lparr>amount = 10, description = ''initial''\<rparr>, \<lparr>amount = - 4, description = ''lunch''\<rparr>] \<and>
   \<not> fst (withdraw (food_store 0) 20 ''car'') \<and>
   snd (withdraw (food_store 0) 20 ''car'') = food_store 0"
  using withdraw_iff_funds[of "food_store 0" 4 "''lunch''"]
        withdraw_iff_funds[of "food_store 0" 20 "''car''"] is_double_4
  by (simp add: food_balance) (simp add: food_store_def)

section \<open>Transfers\<close>

text \<open>
  C3, as stated, fails when a category transfers to itself: both entries go to the one
  ledger and the balance of the source is not lowered. It also fails where the
  difference is rounded: a transfer of 1 out of a balance of \<open>10 ^ 16\<close> leaves the balance
  of the source at \<open>10 ^ 16\<close>.
\<close>

theorem transfer_to_itself_counterexample:
  "check_funds (food_store 0) 5 \<and> fst (transfer food_store 0 5 0) \<and>
   get_balance (food_store 0) = 10 \<and>
   get_balance (snd (transfer food_store 0 5 0) 0) = 10 \<and>
   get_balance (snd (transfer food_store 0 5 0) 0) \<noteq> get_balance (food_store 0) - 5 \<and>
   fst (transfer rich_store 0 1 1) \<and>
   get_balance (rich_store 0) = 10000000000000000 \<and>
   get_balance (snd (transfer rich_store 0 1 1) 0) = 10000000000000000"
  by (simp add: transfer_def food_store_def rich_store_def deposit_def withdraw_def check_funds_def
      get_balance_def float_eval)

text \<open>
  C3, amended. A transfer the source can fund returns true. If the destination is another
  category, the source gets the one new entry of the negated amount described as
  ``Transfer to'' the destination, the destination the one new entry of the amount
  described as ``Transfer from'' the source, every other category stays as it is, and
  the balances are the old ones with the amount subtracted and added. If the destination
  is the source itself, its ledger gets both entries. A transfer the source cannot fund
  returns false and changes nothing.
\<close>

theorem transfer_effect:
  "(check_funds (s src) a \<and> src \<noteq> dst \<longrightarrow>
      fst (transfer s src a dst) \<and>
      snd (transfer s src a dst) =
        s(src := (s src)\<lparr>ledger := ledger (s src) @
                    [\<lparr>amount = fmul a (- 1), description = ''Transfer to '' @ name (s dst)\<rparr>]\<rparr>,
          dst := (s dst)\<lparr>ledger := ledger (s dst) @
                    [\<lparr>amount = a, description = ''Transfer from '' @ name (s src)\<rparr>]\<rparr>) \<and>
      get_balance (snd (transfer s src a dst) src) = fadd (get_balance (s src)) (fmul a (- 1)) \<and>
      get_balance (snd (transfer s src a dst) dst) = fadd (get_balance (s dst)) a \<and>
      (is_double a \<longrightarrow>
         get_balance (snd (transfer s src a dst) src) = to_double (get_balance (s src) - a))) \<and>
   (check_funds (s src) a \<and> src = dst \<longrightarrow>
      fst (transfer s src a dst) \<and>
      snd (transfer s src a dst) =
        s(src := (s src)\<lparr>ledger := ledger (s src) @
                    [\<lparr>amount = fmul a (- 1), description = ''Transfer to '' @ name (s src)\<rparr>,
                     \<lparr>amount = a, description = ''Transfer from '' @ name (s src)\<rparr>]\<rparr>)) \<and>
   (\<not> check_funds (s src) a \<longrightarrow> transfer s src a dst = (False, s))"
  by (auto simp: transfer_def withdraw_def deposit_def get_balance_snoc fmul_minus_one fadd_def Let_def)

theorem transfer_effect_witness:
  "fst (transfer food_store 0 3 1) \<and>
   get_balance (snd (transfer food_store 0 3 1) 0) = 7 \<and>
   get_balance (snd (transfer food_store 0 3 1) 1) = 13 \<and>
   fst (transfer food_store 0 3 0) \<and>
   transfer food_store 0 11 1 = (False, food_store)"
proof -
  have c: "check_funds (food_store 0) 3" "\<not> check_funds (food_store 0) 11"
    by (simp_all add: check_funds_def food_balance)
  have ne: "(0::nat) \<noteq> 1" by simp
  have "fst (transfer food_store 0 3 1) \<and>
      get_balance (snd (transfer food_store 0 3 1) 0) = to_double (get_balance (food_store 0) - 3) \<and>
      get_balance (snd (transfer food_store 0 3 1) 1) = fadd (get_balance (food_store 1)) 3"
    using transfer_effect[of food_store 0 3 1] c(1) ne is_double_3 by blast
  moreover have "to_double (10 - 3) = 7" using to_double_of_int[of 7] by simp
  moreover have "fadd 10 3 = 13" using to_double_of_int[of 13] by (simp add: fadd_def)
  moreover have "fst (transfer food_store 0 3 0)"
    using transfer_effect[of food_store 0 3 0] c(1) by blast
  moreover have "transfer food_store 0 11 1 = (False, food_store)"
    using transfer_effect[of food_store 0 11 1] c(2) by blast
  ultimately show ?thesis by (simp add: food_balance)
qed

section \<open>Funds\<close>

lemma funded_balance_nonneg:
  assumes "a \<le> get_balance c"
  shows "0 \<le> fadd (get_balance c) (fmul a (- 1))"
proof -
  have "to_double a \<le> to_double (get_balance c)" using assms by (rule to_double_mono)
  then have "to_double a \<le> get_balance c"
    using is_double_get_balance[of c] by (simp add: is_double_def)
  then have "0 \<le> get_balance c + - to_double a" by simp
  then have "0 \<le> to_double (get_balance c + - to_double a)" by (rule to_double_nonneg)
  then show ?thesis by (simp add: fadd_def fmul_def to_double_minus)
qed

lemma fadd_nonneg: "0 \<le> x \<Longrightarrow> 0 \<le> y \<Longrightarrow> 0 \<le> fadd x y"
  by (simp add: fadd_def to_double_nonneg)

lemma transfer_funded: "fst (transfer s src a dst) \<longleftrightarrow> a \<le> get_balance (s src)"
  by (simp add: transfer_def check_funds_def Let_def)

text \<open>
  C4, as stated, fails for a negative amount: a transfer of \<open>-10\<close> out of an empty
  category succeeds and leaves the destination at \<open>-10\<close>, and a category in debt that
  transfers a negative amount to itself is in debt afterwards.
\<close>

theorem transfer_negative_counterexample:
  "fst (transfer empty_store 0 (- 10) 1) \<and>
   get_balance (empty_store 1) = 0 \<and>
   get_balance (snd (transfer empty_store 0 (- 10) 1) 1) = - 10 \<and>
   get_balance (snd (transfer empty_store 0 (- 10) 1) 1) < 0 \<and>
   fst (transfer debt_store 0 (- 10) 0) \<and>
   get_balance (snd (transfer debt_store 0 (- 10) 0) 0) = - 5 \<and>
   get_balance (snd (transfer debt_store 0 (- 10) 0) 0) < 0"
  by (simp add: transfer_def empty_store_def debt_store_def Category_init_def deposit_def
      withdraw_def check_funds_def get_balance_def float_eval)

text \<open>
  C4, amended. A withdrawal or a transfer appends its entries only when the balance is
  at least the amount at the check. After a successful withdrawal, and after a
  successful transfer to another category, the balance of the source is not negative,
  for an amount of either sign. The destination of a transfer stays non-negative when
  it was so before and the amount is not negative.
\<close>

theorem funds_check_keeps_source_nonneg:
  "(fst (withdraw c a d) \<longrightarrow>
      a \<le> get_balance c \<and> 0 \<le> get_balance (snd (withdraw c a d))) \<and>
   (ledger (snd (withdraw c a d)) \<noteq> ledger c \<longrightarrow> a \<le> get_balance c) \<and>
   (fst (transfer s src a dst) \<longrightarrow> a \<le> get_balance (s src)) \<and>
   (snd (transfer s src a dst) \<noteq> s \<longrightarrow> a \<le> get_balance (s src)) \<and>
   (fst (transfer s src a dst) \<and> src \<noteq> dst \<longrightarrow>
      0 \<le> get_balance (snd (transfer s src a dst) src)) \<and>
   (fst (transfer s src a dst) \<and> 0 \<le> a \<and> 0 \<le> get_balance (s dst) \<longrightarrow>
      0 \<le> get_balance (snd (transfer s src a dst) dst))"
proof -
  have w: "fst (withdraw c a d) \<longrightarrow>
      a \<le> get_balance c \<and> 0 \<le> get_balance (snd (withdraw c a d))"
    using funded_balance_nonneg[of a c]
    by (simp add: withdraw_def check_funds_def get_balance_snoc)
  have w': "ledger (snd (withdraw c a d)) \<noteq> ledger c \<longrightarrow> a \<le> get_balance c"
    by (simp add: withdraw_def check_funds_def)
  have t: "fst (transfer s src a dst) \<longrightarrow> a \<le> get_balance (s src)"
    by (simp add: transfer_funded)
  have t': "snd (transfer s src a dst) \<noteq> s \<longrightarrow> a \<le> get_balance (s src)"
    by (simp add: transfer_def check_funds_def)
  have ts: "fst (transfer s src a dst) \<and> src \<noteq> dst \<longrightarrow>
      0 \<le> get_balance (snd (transfer s src a dst) src)"
    using funded_balance_nonneg[of a "s src"]
    by (simp add: transfer_def withdraw_def check_funds_def Let_def get_balance_snoc)
  have td: "fst (transfer s src a dst) \<and> 0 \<le> a \<and> 0 \<le> get_balance (s dst) \<longrightarrow>
      0 \<le> get_balance (snd (transfer s src a dst) dst)"
  proof (cases "src = dst")
    case True
    have "0 \<le> fadd (fadd (get_balance (s src)) (fmul a (- 1))) a"
      if "a \<le> get_balance (s src)" "0 \<le> a"
      using that funded_balance_nonneg[of a "s src"] by (simp add: fadd_nonneg)
    then show ?thesis
      using True
      by (simp add: transfer_def withdraw_def deposit_def check_funds_def Let_def get_balance_def)
  next
    case False
    then show ?thesis
      by (simp add: transfer_def withdraw_def deposit_def check_funds_def Let_def
          get_balance_snoc fadd_nonneg)
  qed
  from w w' t t' ts td show ?thesis by blast
qed

theorem funds_check_keeps_source_nonneg_witness:
  "get_balance (snd (withdraw (food_store 0) 4 ''lunch'')) = 6 \<and>
   0 \<le> get_balance (snd (withdraw (food_store 0) 4 ''lunch'')) \<and>
   0 \<le> get_balance (snd (transfer food_store 0 3 1) 0) \<and>
   0 \<le> get_balance (snd (transfer food_store 0 3 1) 1) \<and>
   4 \<le> get_balance (food_store 0)"
proof -
  have f: "fst (withdraw (food_store 0) 4 ''lunch'')" "fst (transfer food_store 0 3 1)"
    by (simp_all add: withdraw_def transfer_def check_funds_def food_balance Let_def)
  have ne: "(0::nat) \<noteq> 1" by simp
  have p: "(0::real) \<le> 3" "0 \<le> get_balance (food_store 1)" by (simp_all add: food_balance)
  have l: "ledger (snd (withdraw (food_store 0) 4 ''lunch'')) \<noteq> ledger (food_store 0)"
    by (simp add: withdraw_def check_funds_def food_balance)
  have "get_balance (snd (withdraw (food_store 0) 4 ''lunch'')) = 6"
    by (simp add: withdraw_def check_funds_def food_balance)
       (simp add: get_balance_def food_store_def float_eval)
  moreover have "0 \<le> get_balance (snd (withdraw (food_store 0) 4 ''lunch''))"
    using funds_check_keeps_source_nonneg[of "food_store 0" 4 "''lunch''" food_store 0 1] f(1)
    by blast
  moreover have "0 \<le> get_balance (snd (transfer food_store 0 3 1) 0)"
    using funds_check_keeps_source_nonneg[of "food_store 0" 3 "''lunch''" food_store 0 1] f(2) ne
    by blast
  moreover have "0 \<le> get_balance (snd (transfer food_store 0 3 1) 1)"
    using funds_check_keeps_source_nonneg[of "food_store 0" 3 "''lunch''" food_store 0 1] f(2) p
    by blast
  moreover have "4 \<le> get_balance (food_store 0)"
    using funds_check_keeps_source_nonneg[of "food_store 0" 4 "''lunch''" food_store 0 1] l
    by blast
  ultimately show ?thesis by blast
qed

text \<open>
  C5, as stated, fails for a category in debt: the deposit of 3 leaves the balance at
  \<open>-2\<close>, the withdrawal of 3 is refused, and the balance is not back at \<open>-5\<close>. It also
  fails where the sum is rounded: with a balance of 1, depositing and withdrawing
  \<open>2 ^ 53\<close> leaves 0.
\<close>

theorem deposit_withdraw_counterexample:
  "get_balance (debt_store 0) = - 5 \<and>
   \<not> fst (withdraw (deposit (debt_store 0) 3 ''pay'') 3 ''back'') \<and>
   get_balance (snd (withdraw (deposit (debt_store 0) 3 ''pay'') 3 ''back'')) = - 2 \<and>
   get_balance (snd (withdraw (deposit (debt_store 0) 3 ''pay'') 3 ''back'')) \<noteq>
     get_balance (debt_store 0) \<and>
   get_balance (big_store 0) = 1 \<and>
   fst (withdraw (deposit (big_store 0) 9007199254740992 ''pay'') 9007199254740992 ''back'') \<and>
   get_balance (snd (withdraw (deposit (big_store 0) 9007199254740992 ''pay'')
                       9007199254740992 ''back'')) = 0"
  by (simp add: debt_store_def big_store_def deposit_def withdraw_def check_funds_def
      get_balance_def float_eval)

text \<open>
  C5, amended. When the balance is not negative, the withdrawal after the deposit of the
  same float succeeds and the balance is the old one plus and then minus the amount,
  each rounded; it is the old balance whenever the sum of the balance and the amount is
  a float. A refused withdrawal leaves the balance after the deposit.
\<close>

theorem deposit_then_withdraw:
  "(is_double x \<and> 0 \<le> get_balance c \<longrightarrow>
      fst (withdraw (deposit c x d) x d') \<and>
      get_balance (snd (withdraw (deposit c x d) x d')) = to_double (to_double (get_balance c + x) - x) \<and>
      (is_double (get_balance c + x) \<longrightarrow>
         get_balance (snd (withdraw (deposit c x d) x d')) = get_balance c)) \<and>
   (\<not> fst (withdraw (deposit c x d) x d') \<longrightarrow>
      get_balance (snd (withdraw (deposit c x d) x d')) = to_double (get_balance c + x))"
proof -
  have 2: "\<not> fst (withdraw (deposit c x d) x d') \<longrightarrow>
      get_balance (snd (withdraw (deposit c x d) x d')) = to_double (get_balance c + x)"
    by (simp add: withdraw_def get_balance_deposit fadd_def)
  have 1: "fst (withdraw (deposit c x d) x d') \<and>
      get_balance (snd (withdraw (deposit c x d) x d')) = to_double (to_double (get_balance c + x) - x) \<and>
      (is_double (get_balance c + x) \<longrightarrow>
         get_balance (snd (withdraw (deposit c x d) x d')) = get_balance c)"
    if x: "is_double x" and b: "0 \<le> get_balance c"
  proof -
    have "x \<le> to_double (get_balance c + x)" using x b by (intro ge_double) simp_all
    then have f: "check_funds (deposit c x d) x"
      by (simp add: check_funds_def get_balance_deposit fadd_def)
    then have g: "get_balance (snd (withdraw (deposit c x d) x d')) =
        to_double (to_double (get_balance c + x) - x)"
      using x by (simp add: withdraw_def get_balance_snoc get_balance_deposit fmul_minus_one fadd_def)
    have "get_balance (snd (withdraw (deposit c x d) x d')) = get_balance c"
      if "is_double (get_balance c + x)"
      using that is_double_get_balance[of c] by (simp add: g is_double_def)
    then show ?thesis using f g by (simp add: withdraw_def)
  qed
  from 1 2 show ?thesis by blast
qed

theorem deposit_then_withdraw_witness:
  "fst (withdraw (deposit (food_store 0) 3 ''pay'') 3 ''back'') \<and>
   get_balance (snd (withdraw (deposit (food_store 0) 3 ''pay'') 3 ''back'')) = 10 \<and>
   get_balance (food_store 0) = 10"
proof -
  have "is_double 3 \<and> 0 \<le> get_balance (food_store 0)" by (simp add: is_double_3 food_balance)
  moreover have "is_double (get_balance (food_store 0) + 3)"
    using is_double_of_int[of 13] by (simp add: food_balance)
  ultimately show ?thesis
    using deposit_then_withdraw[of 3 "food_store 0" "''pay''" "''back''"]
    by (simp add: food_balance)
qed

section \<open>The percentages of the chart\<close>

lemma foldl_snoc_map: "foldl (\<lambda>acc x. acc @ [f x]) a xs = a @ map f xs"
  by (induction xs arbitrary: a) simp_all

lemma withdraws_map: "withdraws cs = map (\<lambda>c. (name c, withdraw_sum (ledger c))) cs"
  by (simp add: withdraws_def foldl_snoc_map)

























section \<open>The rows of the chart\<close>

lemma foldl_append_each: "foldl (\<lambda>r y. r @ g y) r0 ys = r0 @ concat (map g ys)"
  by (induction ys arbitrary: r0) simp_all

lemma foldl_cells:
  "foldl (\<lambda>result x. if P x then result @ a else result @ b) r xs =
     r @ concat (map (\<lambda>x. if P x then a else b) xs)"
  by (induction xs arbitrary: r) simp_all

lemma chart_rows_concat:
  "chart_rows x_axis r0 =
     r0 @ concat (map (\<lambda>y. rjust 4 CHR '' '' (y @ ''|'') @
                          concat (map (\<lambda>x. if int_of_str y \<le> snd x then '' o '' else ''   '') x_axis) @
                          '' '' @ [newline]) y_axis)"
proof -
  have "chart_rows x_axis r0 =
      foldl (\<lambda>r y. r @ (rjust 4 CHR '' '' (y @ ''|'') @
                          concat (map (\<lambda>x. if int_of_str y \<le> snd x then '' o '' else ''   '') x_axis) @
                          '' '' @ [newline])) r0 y_axis"
    by (simp add: chart_rows_def Let_def foldl_cells)
  then show ?thesis by (simp only: foldl_append_each)
qed

lemma replicate_two: "replicate 2 x = [x, x]"
  by (simp add: numeral_2_eq_2)

lemma chart_rows_labels:
  "chart_rows x_axis r0 =
     r0 @ concat (map (\<lambda>(label, y). label @
                          concat (map (\<lambda>x. if y \<le> snd x then '' o '' else ''   '') x_axis) @
                          '' '' @ [newline])
        [(''100|'', 100), ('' 90|'', 90), ('' 80|'', 80), ('' 70|'', 70), ('' 60|'', 60),
         ('' 50|'', 50), ('' 40|'', 40), ('' 30|'', 30), ('' 20|'', 20), ('' 10|'', 10),
         (''  0|'', 0)])"
  by (simp add: chart_rows_concat y_axis_def rjust_def int_of_str_def replicate_two)

lemma name_rows_appends: "\<exists>labels. name_rows x_axis m i result = result @ labels"
proof (induction x_axis m i result rule: name_rows.induct)
  case (1 x_axis m i result)
  show ?case
  proof (cases "i < m")
    case True
    let ?line = "foldl (\<lambda>line x_element.
                      line @ (if i < length (fst x_element)
                              then '' '' @ [fst x_element ! i] @ '' '' else ''   ''))
                    ''    '' x_axis"
    let ?r1 = "result @ ?line @ '' ''"
    let ?r2 = "if int i < int m - 1 then ?r1 @ [newline] else ?r1"
    obtain labels where l: "name_rows x_axis m (i + 1) ?r2 = ?r2 @ labels"
      using "1.IH"[OF True refl refl refl] by blast
    have "name_rows x_axis m i result = name_rows x_axis m (i + 1) ?r2"
      using True by (subst name_rows.simps) (simp add: Let_def)
    then have "name_rows x_axis m i result = ?r2 @ labels" using l by simp
    then show ?thesis by (cases "int i < int m - 1") simp_all
  next
    case False
    then show ?thesis by (subst name_rows.simps) simp
  qed
qed

lemma percent_loop_names:
  "percent_loop overall ws x_axis m = Inr (xs, m') \<Longrightarrow> map fst xs = map fst x_axis @ map fst ws"
proof (induction ws arbitrary: x_axis m)
  case Nil
  then show ?case by simp
next
  case (Cons w ws)
  then show ?case by (auto split: sum.splits)
qed

lemma rjust_dashes: "rjust (int n * 3) CHR ''-'' [] @ ''-'' = replicate (3 * n + 1) CHR ''-''"
proof -
  have "nat (int n * 3) = 3 * n" by simp
  then have "rjust (int n * 3) CHR ''-'' [] = replicate (3 * n) CHR ''-''"
    by (simp add: rjust_def)
  then show ?thesis by (simp add: replicate_append_same)
qed

lemma solo_food_x_axis:
  "percent_loop (overall_withdraw (withdraws solo_food)) (withdraws solo_food) [] 0 =
     Inr ([(''Food'', 90)], 4)"
  by (simp add: solo_food_def withdraws_def withdraw_sum_def overall_withdraw_def
      withdraw_percent_def float_eval)

text \<open>
  C9. When the percentages are computed, the chart is the title line, then eleven rows
  labelled 100 down to 0, each the label with the bar, right-justified to four
  characters, one cell of three characters for every category in the order of the input,
  filled when the percentage of the category is at least the label, and a space before
  the newline; then the line of four spaces and three dashes for every category and one
  more; then the rows of names. The names of the cells are those of the categories.
\<close>

theorem chart_body_rows:
  "percent_loop (overall_withdraw (withdraws categories)) (withdraws categories) [] 0 =
     Inr (x_axis, m) \<longrightarrow>
   map fst x_axis = map name categories \<and>
   (\<exists>labels. create_spend_chart categories =
      Inr (''Percentage spent by category'' @ [newline] @
           concat (map (\<lambda>(label, y). label @
                          concat (map (\<lambda>x. if y \<le> snd x then '' o '' else ''   '') x_axis) @
                          '' '' @ [newline])
             [(''100|'', 100), ('' 90|'', 90), ('' 80|'', 80), ('' 70|'', 70), ('' 60|'', 60),
              ('' 50|'', 50), ('' 40|'', 40), ('' 30|'', 30), ('' 20|'', 20), ('' 10|'', 10),
              (''  0|'', 0)]) @
           ''    '' @ replicate (3 * length categories + 1) CHR ''-'' @ [newline] @ labels))"
proof
  assume p: "percent_loop (overall_withdraw (withdraws categories)) (withdraws categories) [] 0 =
     Inr (x_axis, m)"
  have n: "map fst x_axis = map name categories"
    using percent_loop_names[OF p] by (simp add: withdraws_map comp_def)
  then have len: "length x_axis = length categories" by (metis length_map)
  define body where "body =
    chart_rows x_axis (''Percentage spent by category'' @ [newline]) @
      ''    '' @ rjust (int (length x_axis) * 3) CHR ''-'' [] @ ''-'' @ [newline]"
  obtain labels where l: "name_rows x_axis m 0 body = body @ labels"
    using name_rows_appends by blast
  have "create_spend_chart categories = Inr (name_rows x_axis m 0 body)"
    using p by (simp add: create_spend_chart_def Let_def body_def)
  then have "create_spend_chart categories = Inr (body @ labels)" using l by simp
  moreover have "body = ''Percentage spent by category'' @ [newline] @
           concat (map (\<lambda>(label, y). label @
                          concat (map (\<lambda>x. if y \<le> snd x then '' o '' else ''   '') x_axis) @
                          '' '' @ [newline])
             [(''100|'', 100), ('' 90|'', 90), ('' 80|'', 80), ('' 70|'', 70), ('' 60|'', 60),
              ('' 50|'', 50), ('' 40|'', 40), ('' 30|'', 30), ('' 20|'', 20), ('' 10|'', 10),
              (''  0|'', 0)]) @
           ''    '' @ replicate (3 * length categories + 1) CHR ''-'' @ [newline]"
    unfolding body_def chart_rows_labels len
    using rjust_dashes[of "length categories"] by simp
  ultimately show "map fst x_axis = map name categories \<and>
   (\<exists>labels. create_spend_chart categories =
      Inr (''Percentage spent by category'' @ [newline] @
           concat (map (\<lambda>(label, y). label @
                          concat (map (\<lambda>x. if y \<le> snd x then '' o '' else ''   '') x_axis) @
                          '' '' @ [newline])
             [(''100|'', 100), ('' 90|'', 90), ('' 80|'', 80), ('' 70|'', 70), ('' 60|'', 60),
              ('' 50|'', 50), ('' 40|'', 40), ('' 30|'', 30), ('' 20|'', 20), ('' 10|'', 10),
              (''  0|'', 0)]) @
           ''    '' @ replicate (3 * length categories + 1) CHR ''-'' @ [newline] @ labels))"
    using n by auto
qed

theorem chart_body_rows_witness:
  "\<exists>labels. create_spend_chart solo_food =
      Inr (''Percentage spent by category'' @ [newline] @
           ''100|    '' @ [newline] @ '' 90| o  '' @ [newline] @ '' 80| o  '' @ [newline] @
           '' 70| o  '' @ [newline] @ '' 60| o  '' @ [newline] @ '' 50| o  '' @ [newline] @
           '' 40| o  '' @ [newline] @ '' 30| o  '' @ [newline] @ '' 20| o  '' @ [newline] @
           '' 10| o  '' @ [newline] @ ''  0| o  '' @ [newline] @
           ''    ----'' @ [newline] @ labels)"
proof -
  have "length solo_food = 1" by (simp add: solo_food_def)
  then show ?thesis
    using chart_body_rows[of solo_food "[(''Food'', 90)]" 4] solo_food_x_axis
    by (simp add: numeral_eq_Suc)
qed

text \<open>
  C10. For the empty list of categories the function returns: no percentage is computed,
  so nothing is divided, and the text is the title line, the eleven rows of a label and
  a space, and the line of four spaces and one dash with its newline, with no row of
  names after it.
\<close>

theorem chart_of_no_categories:
  "create_spend_chart [] =
     Inr (''Percentage spent by category'' @ [newline] @
          ''100| '' @ [newline] @ '' 90| '' @ [newline] @ '' 80| '' @ [newline] @
          '' 70| '' @ [newline] @ '' 60| '' @ [newline] @ '' 50| '' @ [newline] @
          '' 40| '' @ [newline] @ '' 30| '' @ [newline] @ '' 20| '' @ [newline] @
          '' 10| '' @ [newline] @ ''  0| '' @ [newline] @
          ''    -'' @ [newline])"
  by (simp add: create_spend_chart_def withdraws_def overall_withdraw_def chart_rows_def
      y_axis_def rjust_def int_of_str_def name_rows.simps replicate_two)

section \<open>The layout of a statement\<close>


















end
